theory Spec2Isabelle
  imports Complex_Main
begin

section \<open>Python values and built-ins used by trendtube.py\<close>

text \<open>
  A string is a list of characters. The character type \<open>'c\<close> is a parameter: a Unicode
  code point. Python integers are \<^typ>\<open>int\<close>. A raised exception is the \<open>Inl\<close> branch of
  a sum; the value \<open>None\<close> is \<open>None\<close> of an option type.
\<close>

datatype py_error = TypeError | AttributeError | IndexError | ZeroDivisionError | OverflowError

text \<open>
  The built-ins on text are parameters too, since they depend on the Unicode tables of
  the interpreter: \<open>chr\<close> gives the character with a code point below 256 (the source's
  literals are made of these), \<open>isspace\<close> tells whether \<open>str.split()\<close> and
  \<open>str.isspace()\<close> take a character for whitespace, and \<open>lower\<close> is \<open>str.lower()\<close>.
\<close>

record 'c builtins =
  chr :: "char \<Rightarrow> 'c"
  isspace :: "'c \<Rightarrow> bool"
  lower :: "'c list \<Rightarrow> 'c list"

text \<open>A string literal of the source.\<close>

definition py_str :: "'c builtins \<Rightarrow> string \<Rightarrow> 'c list" where
  "py_str py s = map (chr py) s"

text \<open>\<open>string.punctuation\<close>: the 32 ASCII punctuation characters.\<close>

definition punctuation :: string where
  "punctuation = ''!'' @ [CHR 0x22] @ ''#$%&'' @ [CHR 0x27] @ ''()*+,-./:;<=>?@['' @ [CHR 0x5C] @ '']^_`{|}~''"

text \<open>
  \<open>s.split()\<close> with no separator: runs of whitespace separate the words, and no empty word
  is produced. The first argument after the built-ins is the word read so far.
\<close>

fun split_from :: "'c builtins \<Rightarrow> 'c list \<Rightarrow> 'c list \<Rightarrow> 'c list list" where
  "split_from py w [] = (if w = [] then [] else [w])"
| "split_from py w (c # cs) =
     (if isspace py c then (if w = [] then split_from py [] cs else w # split_from py [] cs)
      else split_from py (w @ [c]) cs)"

definition str_split :: "'c builtins \<Rightarrow> 'c list \<Rightarrow> 'c list list" where
  "str_split py s = split_from py [] s"

text \<open>
  The built-ins on the code points below 256, a character being its code point: the
  whitespace characters among them, and \<open>lower\<close>, which moves the capital letters
  \<open>A\<close> to \<open>Z\<close> and U+00C0 to U+00DE other than the sign U+00D7 up by 32.
\<close>

definition whitespace :: string where
  "whitespace = [CHR 0x09, CHR 0x0A, CHR 0x0B, CHR 0x0C, CHR 0x0D,
                 CHR 0x1C, CHR 0x1D, CHR 0x1E, CHR 0x1F, CHR 0x20, CHR 0x85, CHR 0xA0]"

definition latin1_lower :: "char \<Rightarrow> char" where
  "latin1_lower c =
     (let n = (of_char c :: nat)
      in if (65 \<le> n \<and> n \<le> 90) \<or> (192 \<le> n \<and> n \<le> 222 \<and> n \<noteq> 215)
         then char_of (n + 32) else c)"

definition latin1 :: "char builtins" where
  "latin1 = \<lparr>chr = (\<lambda>c. c), isspace = (\<lambda>c. c \<in> set whitespace), lower = map latin1_lower\<rparr>"

text \<open>\<open>xs.count(x)\<close>, as a Python integer.\<close>

definition list_count :: "'a list \<Rightarrow> 'a \<Rightarrow> int" where
  "list_count xs x = int (count_list xs x)"

text \<open>\<open>xs[i]\<close>: a negative index counts from the end, an index out of range raises.\<close>

definition getitem :: "'a list \<Rightarrow> int \<Rightarrow> py_error + 'a" where
  "getitem xs i =
     (if 0 \<le> i \<and> i < int (length xs) then Inr (xs ! nat i)
      else if i < 0 \<and> - int (length xs) \<le> i then Inr (xs ! nat (int (length xs) + i))
      else Inl IndexError)"

text \<open>
  \<open>list(set(xs))\<close>: the elements of \<open>xs\<close> without repetition, in the iteration order of the
  hash set. That order is fixed within one run of the interpreter and unknown otherwise, so
  it is a parameter of the model: a function from the sequence of insertions to the listing.
\<close>

type_synonym 'c set_order = "'c list list \<Rightarrow> 'c list list"

definition valid_set_order :: "'c set_order \<Rightarrow> bool" where
  "valid_set_order so = (\<forall>xs. distinct (so xs) \<and> set (so xs) = set xs)"

text \<open>
  A \<open>dict\<close> keeps its keys in insertion order: an association list with distinct keys.
  \<open>d[k] = v\<close> overwrites the value of a present key in place and appends an absent one.
\<close>

type_synonym ('k, 'v) dict = "('k \<times> 'v) list"

fun setitem :: "('k, 'v) dict \<Rightarrow> 'k \<Rightarrow> 'v \<Rightarrow> ('k, 'v) dict" where
  "setitem [] k v = [(k, v)]"
| "setitem ((k', v') # d) k v =
     (if k' = k then (k', v) # d else (k', v') # setitem d k v)"

text \<open>\<open>dict(items)\<close> from a sequence of pairs.\<close>

definition dict_of :: "('k \<times> 'v) list \<Rightarrow> ('k, 'v) dict" where
  "dict_of items = foldl (\<lambda>d (k, v). setitem d k v) [] items"

text \<open>\<open>bool(x)\<close> for a string, an integer and a list, each possibly \<open>None\<close>.\<close>

definition truthy_str :: "'c list option \<Rightarrow> bool" where
  "truthy_str x = (case x of None \<Rightarrow> False | Some s \<Rightarrow> s \<noteq> [])"

definition truthy_int :: "int option \<Rightarrow> bool" where
  "truthy_int x = (case x of None \<Rightarrow> False | Some i \<Rightarrow> i \<noteq> 0)"

definition truthy_list :: "'a list option \<Rightarrow> bool" where
  "truthy_list x = (case x of None \<Rightarrow> False | Some xs \<Rightarrow> xs \<noteq> [])"

section \<open>class Video\<close>

text \<open>The title is a \<open>str\<close> until \<open>split_title\<close> turns it into a list of \<open>str\<close>.\<close>

datatype 'c title = Str "'c list" | Words "'c list list"

text \<open>
  The counters hold the integers that the properties \<open>view_count\<close>, \<open>likes\<close>, \<open>dislikes\<close>
  and \<open>comment_count\<close> return.
\<close>

record 'c video =
  video_id :: "'c list"
  video_title :: "'c title"
  video_tags :: "'c list list option"
  duration :: "'c list"
  view_count :: int
  likes :: int
  dislikes :: int
  comment_count :: int
  made_for_kids :: "bool option"

text \<open>
  \<open>like_ratio\<close> is \<open>round(self.likes / self.dislikes, 2)\<close>. The quotient and the rounding
  are floating-point built-ins: \<open>fdiv\<close> is \<open>/\<close> on two integers with a nonzero divisor (it
  raises when the quotient is too large for a float) and \<open>rnd\<close> is \<open>round\<close> to a number
  of decimals. A zero divisor raises before any float is computed.
\<close>

definition truediv :: "(int \<Rightarrow> int \<Rightarrow> py_error + 'f) \<Rightarrow> int \<Rightarrow> int \<Rightarrow> py_error + 'f" where
  "truediv fdiv a b = (if b = 0 then Inl ZeroDivisionError else fdiv a b)"

definition like_ratio ::
  "(int \<Rightarrow> int \<Rightarrow> py_error + 'f) \<Rightarrow> ('f \<Rightarrow> int \<Rightarrow> 'f) \<Rightarrow> 'c video \<Rightarrow> py_error + 'f" where
  "like_ratio fdiv rnd v =
     (case truediv fdiv (likes v) (dislikes v) of
        Inl e \<Rightarrow> Inl e
      | Inr q \<Rightarrow> Inr (rnd q 2))"

text \<open>The \<open>if\<close>/\<open>elif\<close> chain of \<open>split_title\<close> on one non-empty word.\<close>

definition strip_word :: "'c builtins \<Rightarrow> 'c list \<Rightarrow> 'c list" where
  "strip_word py w =
     (if hd w \<in> set (py_str py punctuation) \<and> last w \<in> set (py_str py punctuation)
        then butlast (tl w)
      else if hd w \<in> set (py_str py punctuation) \<and> \<not> last w \<in> set (py_str py punctuation)
        then tl w
      else if \<not> hd w \<in> set (py_str py punctuation) \<and> last w \<in> set (py_str py punctuation)
        then butlast w
      else w)"

text \<open>The loop of \<open>split_title\<close>; \<open>title[0]\<close> raises on an empty word.\<close>

fun title_words :: "'c builtins \<Rightarrow> 'c list list \<Rightarrow> py_error + 'c list list" where
  "title_words py [] = Inr []"
| "title_words py (w # ws) =
     (if w = [] then Inl IndexError
      else (case title_words py ws of
              Inl e \<Rightarrow> Inl e
            | Inr t \<Rightarrow> Inr (if strip_word py w \<noteq> [] then strip_word py w # t else t)))"

text \<open>A title that is already a list has no \<open>split\<close> method.\<close>

definition split_title ::
  "'c builtins \<Rightarrow> 'c set_order \<Rightarrow> bool \<Rightarrow> 'c video \<Rightarrow> py_error + 'c video" where
  "split_title py so combine v =
     (case video_title v of
        Words ws \<Rightarrow> Inl AttributeError
      | Str s \<Rightarrow>
          (case title_words py (str_split py s) of
             Inl e \<Rightarrow> Inl e
           | Inr t \<Rightarrow>
               Inr (v\<lparr>video_title := Words (if combine then [s] @ so t else so t)\<rparr>)))"

definition split_tags ::
  "'c builtins \<Rightarrow> 'c set_order \<Rightarrow> bool \<Rightarrow> 'c video \<Rightarrow> py_error + 'c video" where
  "split_tags py so combine v =
     (if truthy_list (video_tags v) then
        (let ts = the (video_tags v); t = so (concat (map (str_split py) ts))
         in Inr (v\<lparr>video_tags := Some (if combine then ts @ t else t)\<rparr>))
      else Inl TypeError)"

text \<open>
  \<open>__remove_stopwords\<close>; \<open>english\<close> is \<open>stopwords.words('english')\<close> of the nltk corpus.
\<close>

definition ignore_words ::
  "'c builtins \<Rightarrow> 'c set_order \<Rightarrow> 'c list list \<Rightarrow> bool \<Rightarrow> 'c list list" where
  "ignore_words py so english custom =
     so english @
     (if custom then
        map (py_str py) ([''0'', ''1'', ''2'', ''3'', ''4''] @ [''5'', ''6'', ''7'', ''8'', ''9''])
        @ map (\<lambda>c. [c]) (py_str py punctuation)
        @ map (py_str py) [''-'', ''+'', ''*'', ''/'', ''.'', ''('', '')'', ''&'', ''|'']
        @ map (py_str py) [''video'', ''youtube'', ''new'', ''get'', ''ft'']
      else [])"

definition remove_stopwords ::
  "'c builtins \<Rightarrow> 'c set_order \<Rightarrow> 'c list list \<Rightarrow> 'c list list \<Rightarrow> bool \<Rightarrow> 'c list list" where
  "remove_stopwords py so english words custom =
     filter (\<lambda>w. lower py w \<notin> set (ignore_words py so english custom)) words"

text \<open>\<open>stop_tags\<close>; iterating over \<open>None\<close> raises.\<close>

definition stop_tags ::
  "'c builtins \<Rightarrow> 'c set_order \<Rightarrow> 'c list list \<Rightarrow> 'c video \<Rightarrow> py_error + 'c video" where
  "stop_tags py so english v =
     (case video_tags v of
        None \<Rightarrow> Inl TypeError
      | Some ts \<Rightarrow> Inr (v\<lparr>video_tags := Some (remove_stopwords py so english ts True)\<rparr>))"

text \<open>
  Iterating over a title: the characters of a \<open>str\<close>, each a string of length one, or
  the elements of a list. \<open>stop_title\<close> always leaves a list.
\<close>

definition title_elements :: "'c title \<Rightarrow> 'c list list" where
  "title_elements t = (case t of Str s \<Rightarrow> map (\<lambda>c. [c]) s | Words ws \<Rightarrow> ws)"

definition stop_title ::
  "'c builtins \<Rightarrow> 'c set_order \<Rightarrow> 'c list list \<Rightarrow> 'c video \<Rightarrow> 'c video" where
  "stop_title py so english v =
     v\<lparr>video_title :=
         Words (remove_stopwords py so english (title_elements (video_title v)) True)\<rparr>"

section \<open>class Trending\<close>

record 'c trending =
  videos :: "'c video list"
  titles :: "'c list list"
  tags :: "'c list list"
  title_frequencies :: "('c list, int) dict"
  tag_frequencies :: "('c list, int) dict"
  date :: "string option"

subsection \<open>get_videos\<close>

text \<open>
  One record of the metadata API's answer; \<open>tags\<close> and \<open>commentCount\<close> are optional. The
  API itself is a parameter: a function from the requested identifiers to the records.
\<close>

record 'c api_item =
  item_id :: "'c list"
  item_title :: "'c list"
  item_duration :: "'c list"
  item_made_for_kids :: bool
  item_view_count :: int
  item_like_count :: int
  item_dislike_count :: int
  item_tags :: "'c list list option"
  item_comment_count :: "int option"

text \<open>The body of the inner \<open>for\<close> loop: the Video built from one record.\<close>

definition video_of_item :: "'c builtins \<Rightarrow> 'c set_order \<Rightarrow> 'c api_item \<Rightarrow> 'c video" where
  "video_of_item py so it =
     \<lparr> video_id = item_id it,
       video_title = Str (item_title it),
       video_tags = (case item_tags it of
                       Some ts \<Rightarrow> Some (so (map (lower py) ts))
                     | None \<Rightarrow> Some []),
       duration = item_duration it,
       view_count = item_view_count it,
       likes = item_like_count it,
       dislikes = item_dislike_count it,
       comment_count = (case item_comment_count it of Some c \<Rightarrow> c | None \<Rightarrow> 0),
       made_for_kids = Some (item_made_for_kids it) \<rparr>"

text \<open>
  The \<open>while not finished\<close> loop with \<open>num = 50\<close>. The state is \<open>count\<close>, the requests
  issued so far (the \<open>id_list\<close> of each call of the API) and \<open>self._videos\<close>.
\<close>

function fetch_loop ::
  "('c list list \<Rightarrow> 'c api_item list) \<Rightarrow> 'c builtins \<Rightarrow> 'c set_order \<Rightarrow> 'c list list \<Rightarrow> nat
     \<Rightarrow> 'c list list list \<Rightarrow> 'c video list \<Rightarrow> 'c list list list \<times> 'c video list" where
  "fetch_loop api py so ids count reqs vs =
     (let x = count + 50 in
      if x < length ids then
        (let id_list = take (x - count) (drop count ids)
         in fetch_loop api py so ids (count + 50)
              (reqs @ [id_list]) (vs @ map (video_of_item py so) (api id_list)))
      else
        (let id_list = drop count ids
         in (reqs @ [id_list], vs @ map (video_of_item py so) (api id_list))))"
  by pat_completeness auto
termination
  by (relation "measure (\<lambda>(api, py, so, ids, count, reqs, vs). length ids - count)") auto

declare fetch_loop.simps [simp del]

text \<open>
  \<open>get_videos\<close>, from the identifiers \<open>ids\<close> found on the page at time \<open>now\<close>. The first
  component is the sequence of requests made to the API.
\<close>

definition get_videos ::
  "('c list list \<Rightarrow> 'c api_item list) \<Rightarrow> 'c builtins \<Rightarrow> 'c set_order \<Rightarrow> string
     \<Rightarrow> 'c list list \<Rightarrow> 'c trending \<Rightarrow> 'c list list list \<times> 'c trending" where
  "get_videos api py so now ids st =
     (let (reqs, vs) = fetch_loop api py so ids 0 [] (videos st)
      in (reqs, st\<lparr>videos := vs, date := Some now\<rparr>))"

subsection \<open>combine_titles\<close>

fun combine_titles_loop ::
  "'c builtins \<Rightarrow> 'c set_order \<Rightarrow> 'c list list \<Rightarrow> bool \<Rightarrow> bool \<Rightarrow> bool \<Rightarrow> 'c video list
     \<Rightarrow> 'c list list \<Rightarrow> py_error + ('c video list \<times> 'c list list)" where
  "combine_titles_loop py so english split combine stop_words [] acc = Inr ([], acc)"
| "combine_titles_loop py so english split combine stop_words (vid # vs) acc =
     (case (if split then split_title py so combine vid else Inr vid) of
        Inl e \<Rightarrow> Inl e
      | Inr v1 \<Rightarrow>
          (let v2 = (if stop_words then stop_title py so english v1 else v1) in
           case combine_titles_loop py so english split combine stop_words vs
                  (acc @ title_elements (video_title v2)) of
             Inl e \<Rightarrow> Inl e
           | Inr (vs', acc') \<Rightarrow> Inr (v2 # vs', acc')))"

definition combine_titles ::
  "'c builtins \<Rightarrow> 'c set_order \<Rightarrow> 'c list list \<Rightarrow> bool \<Rightarrow> bool \<Rightarrow> bool \<Rightarrow> 'c trending
     \<Rightarrow> py_error + 'c trending" where
  "combine_titles py so english split combine stop_words st =
     (case combine_titles_loop py so english split combine stop_words (videos st) (titles st) of
        Inl e \<Rightarrow> Inl e
      | Inr (vs', acc') \<Rightarrow> Inr (st\<lparr>videos := vs', titles := acc'\<rparr>))"

subsection \<open>combine_tags\<close>

text \<open>The body of the loop up to the \<open>extend\<close>: the optional split and stop-word steps.\<close>

definition process_tags ::
  "'c builtins \<Rightarrow> 'c set_order \<Rightarrow> 'c list list \<Rightarrow> bool \<Rightarrow> bool \<Rightarrow> bool \<Rightarrow> 'c video
     \<Rightarrow> py_error + 'c video" where
  "process_tags py so english split combine stop_words vid =
     (case (if split then split_tags py so combine vid else Inr vid) of
        Inl e \<Rightarrow> Inl e
      | Inr v1 \<Rightarrow> (if stop_words then stop_tags py so english v1 else Inr v1))"

text \<open>
  The loop of \<open>combine_tags\<close> over the videos whose tags are truthy. A video is an object
  of its own, so changing one leaves the test of the others as it was; the videos that
  are passed over stay in \<open>self._videos\<close> unchanged. Extending a list by \<open>None\<close> raises.
\<close>

fun combine_tags_loop ::
  "'c builtins \<Rightarrow> 'c set_order \<Rightarrow> 'c list list \<Rightarrow> bool \<Rightarrow> bool \<Rightarrow> bool \<Rightarrow> 'c video list
     \<Rightarrow> 'c list list \<Rightarrow> py_error + ('c video list \<times> 'c list list)" where
  "combine_tags_loop py so english split combine stop_words [] acc = Inr ([], acc)"
| "combine_tags_loop py so english split combine stop_words (vid # vs) acc =
     (if truthy_list (video_tags vid) then
        (case process_tags py so english split combine stop_words vid of
           Inl e \<Rightarrow> Inl e
         | Inr v2 \<Rightarrow>
             (case video_tags v2 of
                None \<Rightarrow> Inl TypeError
              | Some ts \<Rightarrow>
                  (case combine_tags_loop py so english split combine stop_words vs (acc @ ts) of
                     Inl e \<Rightarrow> Inl e
                   | Inr (vs', acc') \<Rightarrow> Inr (v2 # vs', acc'))))
      else
        (case combine_tags_loop py so english split combine stop_words vs acc of
           Inl e \<Rightarrow> Inl e
         | Inr (vs', acc') \<Rightarrow> Inr (vid # vs', acc')))"

definition combine_tags ::
  "'c builtins \<Rightarrow> 'c set_order \<Rightarrow> 'c list list \<Rightarrow> bool \<Rightarrow> bool \<Rightarrow> bool \<Rightarrow> 'c trending
     \<Rightarrow> py_error + 'c trending" where
  "combine_tags py so english split combine stop_words st =
     (case combine_tags_loop py so english split combine stop_words (videos st) (tags st) of
        Inl e \<Rightarrow> Inl e
      | Inr (vs', acc') \<Rightarrow> Inr (st\<lparr>videos := vs', tags := acc'\<rparr>))"

subsection \<open>count\<close>

text \<open>
  \<open>count(title, tag, name, index)\<close>. The result \<open>Inr None\<close> is the value \<open>None\<close>, returned
  by the last \<open>else\<close> or by falling off the end of an inner \<open>if\<close>/\<open>elif\<close>.
\<close>

definition count_in ::
  "'c list list \<Rightarrow> 'c list option \<Rightarrow> int option \<Rightarrow> py_error + int option" where
  "count_in xs name index =
     (if truthy_str name then Inr (Some (list_count xs (the name)))
      else if truthy_int index then
        (case getitem xs (the index) of
           Inl e \<Rightarrow> Inl e
         | Inr x \<Rightarrow> Inr (Some (list_count xs x)))
      else Inr None)"

definition count ::
  "'c trending \<Rightarrow> bool \<Rightarrow> bool \<Rightarrow> 'c list option \<Rightarrow> int option \<Rightarrow> py_error + int option" where
  "count st title tag name index =
     (if title then count_in (titles st) name index
      else if tag then count_in (tags st) name index
      else Inr None)"

subsection \<open>find_title_frequencies and find_tag_frequencies\<close>

text \<open>
  The dict comprehension \<open>{x: xs.count(x) for x in xs if xs.count(x) >= threshold}\<close>,
  then \<open>dict(sorted(d.items(), key=lambda kv: kv[1]))\<close>; \<open>sorted\<close> is stable, as
  \<^const>\<open>sort_key\<close> is.
\<close>

definition frequency_comprehension :: "'c list list \<Rightarrow> int \<Rightarrow> ('c list, int) dict" where
  "frequency_comprehension xs threshold =
     foldl (\<lambda>d x. if list_count xs x \<ge> threshold then setitem d x (list_count xs x) else d) [] xs"

definition frequencies :: "'c list list \<Rightarrow> int \<Rightarrow> ('c list, int) dict" where
  "frequencies xs threshold = dict_of (sort_key snd (frequency_comprehension xs threshold))"

definition find_title_frequencies :: "'c trending \<Rightarrow> int \<Rightarrow> 'c trending" where
  "find_title_frequencies st threshold =
     st\<lparr>title_frequencies := frequencies (titles st) threshold\<rparr>"

definition find_tag_frequencies :: "'c trending \<Rightarrow> int \<Rightarrow> 'c trending" where
  "find_tag_frequencies st threshold =
     st\<lparr>tag_frequencies := frequencies (tags st) threshold\<rparr>"

section \<open>Notions used to state the properties\<close>

text \<open>
  What the properties may rely on about the built-ins when they speak of a literal:
  distinct code points are distinct characters, and a character with a code point below
  256 is whitespace exactly when it is one of the twelve of \<^const>\<open>whitespace\<close>.
\<close>

definition literal_text :: "'c builtins \<Rightarrow> bool" where
  "literal_text py =
     (inj (chr py) \<and> (\<forall>c. isspace py (chr py c) = (c \<in> set whitespace)))"

text \<open>What a video adds to the flat tag sequence: its tags, nothing when it has none.\<close>

definition contributed_tags :: "'c video \<Rightarrow> 'c list list" where
  "contributed_tags v = (case video_tags v of None \<Rightarrow> [] | Some ts \<Rightarrow> ts)"

text \<open>The position of the first occurrence of \<open>x\<close> in \<open>xs\<close>.\<close>

definition first_index :: "'a list \<Rightarrow> 'a \<Rightarrow> nat" where
  "first_index xs x = length (takeWhile (\<lambda>y. y \<noteq> x) xs)"

text \<open>The distinct elements of a list in the order of their first occurrence.\<close>

fun first_occurrences :: "'a list \<Rightarrow> 'a list" where
  "first_occurrences [] = []"
| "first_occurrences (x # xs) = x # removeAll x (first_occurrences xs)"

text \<open>
  The order of a frequency table: by count, and among equal counts by the position of
  the first occurrence of the key in the flat sequence.
\<close>

definition by_count_then_first :: "'a list \<Rightarrow> 'a \<times> int \<Rightarrow> 'a \<times> int \<Rightarrow> bool" where
  "by_count_then_first xs p q =
     (snd p < snd q \<or> (snd p = snd q \<and> first_index xs (fst p) < first_index xs (fst q)))"

section \<open>Frequency tables\<close>


lemma set_first_occurrences: "set (first_occurrences xs) = set xs"
  by (induction xs) auto

lemma distinct_first_occurrences: "distinct (first_occurrences xs)"
  by (induction xs) (auto simp: distinct_removeAll set_first_occurrences)

lemma first_index_Cons:
  "first_index (x # xs) y = (if y = x then 0 else Suc (first_index xs y))"
  by (auto simp: first_index_def)

lemma first_occurrences_ordered:
  "sorted_wrt (\<lambda>a b. first_index xs a < first_index xs b) (first_occurrences xs)"
proof (induction xs)
  case Nil
  show ?case by simp
next
  case (Cons x xs)
  have "sorted_wrt (\<lambda>a b. first_index xs a < first_index xs b)
          (removeAll x (first_occurrences xs))"
    using Cons.IH by (simp add: removeAll_filter_not_eq sorted_wrt_filter)
  then have "sorted_wrt (\<lambda>a b. first_index (x # xs) a < first_index (x # xs) b)
          (removeAll x (first_occurrences xs))"
    by (rule sorted_wrt_mono_rel [rotated]) (auto simp: first_index_Cons)
  then show ?case
    by (auto simp: first_index_Cons)
qed

lemma setitem_same_value:
  "setitem (map (\<lambda>x. (x, c x)) ks) y (c y) =
     (if y \<in> set ks then map (\<lambda>x. (x, c x)) ks else map (\<lambda>x. (x, c x)) (ks @ [y]))"
  by (induction ks) auto

lemma filter_removeAll_neg:
  "\<not> Q y \<Longrightarrow> filter Q (removeAll y l) = filter Q l"
  by (induction l) auto

lemma filter_removeAll_pos:
  "filter Q (removeAll y l) = filter (\<lambda>z. Q z \<and> z \<noteq> y) l"
  by (induction l) auto

lemma comprehension_fold:
  "foldl (\<lambda>d x. if P x then setitem d x (c x) else d) (map (\<lambda>x. (x, c x)) ks) ys =
     map (\<lambda>x. (x, c x)) (ks @ filter (\<lambda>y. P y \<and> y \<notin> set ks) (first_occurrences ys))"
proof (induction ys arbitrary: ks)
  case Nil
  show ?case by simp
next
  case (Cons y ys)
  show ?case
  proof (cases "P y \<and> y \<notin> set ks")
    case True
    have "filter (\<lambda>z. P z \<and> z \<notin> set ks) (removeAll y (first_occurrences ys)) =
          filter (\<lambda>z. P z \<and> z \<notin> set (ks @ [y])) (first_occurrences ys)"
      by (simp add: filter_removeAll_pos conj_ac)
    with True Cons.IH [of "ks @ [y]"] show ?thesis
      by (simp add: setitem_same_value)
  next
    case False
    then have "filter (\<lambda>z. P z \<and> z \<notin> set ks) (removeAll y (first_occurrences ys)) =
          filter (\<lambda>z. P z \<and> z \<notin> set ks) (first_occurrences ys)"
      by (intro filter_removeAll_neg) simp
    with False Cons.IH [of ks] show ?thesis
      by (auto simp: setitem_same_value)
  qed
qed

lemma frequency_comprehension_eq:
  "frequency_comprehension xs k =
     map (\<lambda>x. (x, list_count xs x)) (filter (\<lambda>x. k \<le> list_count xs x) (first_occurrences xs))"
  using comprehension_fold [of "\<lambda>x. k \<le> list_count xs x" "list_count xs" "[]" xs]
  by (simp add: frequency_comprehension_def)

lemma setitem_fresh: "k \<notin> fst ` set d \<Longrightarrow> setitem d k v = d @ [(k, v)]"
  by (induction d) auto

lemma dict_of_fold:
  "distinct (map fst (d @ items)) \<Longrightarrow>
     foldl (\<lambda>d (k, v). setitem d k v) d items = d @ items"
proof (induction items arbitrary: d)
  case Nil
  show ?case by simp
next
  case (Cons p items)
  obtain k v where p: "p = (k, v)" by (cases p)
  from Cons.prems p have "k \<notin> fst ` set d" by auto
  then have "setitem d k v = d @ [(k, v)]" by (rule setitem_fresh)
  moreover from Cons.prems p have "distinct (map fst ((d @ [(k, v)]) @ items))" by simp
  ultimately show ?case using Cons.IH [of "d @ [(k, v)]"] p by simp
qed

lemma dict_of_distinct: "distinct (map fst items) \<Longrightarrow> dict_of items = items"
  using dict_of_fold [of "[]" items] by (simp add: dict_of_def)

lemma distinct_fst_insort_key:
  "distinct (map fst (insort_key f a xs)) = (fst a \<notin> fst ` set xs \<and> distinct (map fst xs))"
  by (induction xs) (auto simp: set_insort_key)

lemma distinct_fst_sort_key:
  "distinct (map fst (sort_key f xs)) = distinct (map fst xs)"
  by (induction xs) (auto simp: distinct_fst_insort_key)

lemma insort_key_lex:
  fixes f :: "'a \<Rightarrow> int"
  assumes "sorted_wrt (\<lambda>p q. f p < f q \<or> (f p = f q \<and> R p q)) S"
    and "\<forall>b \<in> set S. R a b"
  shows "sorted_wrt (\<lambda>p q. f p < f q \<or> (f p = f q \<and> R p q)) (insort_key f a S)"
  using assms
proof (induction S)
  case Nil
  show ?case by simp
next
  case (Cons y ys)
  show ?case
  proof (cases "f a \<le> f y")
    case True
    have "f a < f z \<or> (f a = f z \<and> R a z)" if "z \<in> set (y # ys)" for z
    proof -
      have "f y \<le> f z" using Cons.prems(1) that by auto
      with True have "f a \<le> f z" by simp
      moreover have "R a z" using Cons.prems(2) that by blast
      ultimately show ?thesis by auto
    qed
    with True Cons.prems(1) show ?thesis by simp
  next
    case False
    with Cons show ?thesis by (auto simp: set_insort_key)
  qed
qed

lemma sort_key_lex:
  fixes f :: "'a \<Rightarrow> int"
  assumes "sorted_wrt R xs"
  shows "sorted_wrt (\<lambda>p q. f p < f q \<or> (f p = f q \<and> R p q)) (sort_key f xs)"
  using assms
proof (induction xs)
  case Nil
  show ?case by simp
next
  case (Cons a xs)
  then have "sorted_wrt (\<lambda>p q. f p < f q \<or> (f p = f q \<and> R p q)) (sort_key f xs)"
    and "\<forall>b \<in> set (sort_key f xs). R a b"
    by auto
  then show ?case
    using insort_key_lex [of f R "sort_key f xs" a] by simp
qed

lemma frequencies_eq:
  "frequencies xs k = sort_key snd (frequency_comprehension xs k)"
  unfolding frequencies_def
  by (rule dict_of_distinct)
     (simp add: distinct_fst_sort_key frequency_comprehension_eq comp_def distinct_first_occurrences)

lemma distinct_frequencies: "distinct (map fst (frequencies xs k))"
  by (simp add: frequencies_eq distinct_fst_sort_key frequency_comprehension_eq comp_def
      distinct_first_occurrences)

lemma set_frequencies:
  "set (frequencies xs k) = {(x, list_count xs x) | x. x \<in> set xs \<and> k \<le> list_count xs x}"
  by (auto simp: frequencies_eq frequency_comprehension_eq set_first_occurrences)

lemma map_of_frequencies:
  "map_of (frequencies xs k) x =
     (if x \<in> set xs \<and> k \<le> list_count xs x then Some (list_count xs x) else None)"
proof (cases "x \<in> set xs \<and> k \<le> list_count xs x")
  case True
  then have "(x, list_count xs x) \<in> set (frequencies xs k)"
    by (simp add: set_frequencies)
  with True show ?thesis
    by (simp add: distinct_frequencies)
next
  case False
  then have "x \<notin> fst ` set (frequencies xs k)"
    by (auto simp: set_frequencies)
  then have "map_of (frequencies xs k) x = None"
    by (simp add: map_of_eq_None_iff)
  with False show ?thesis
    by auto
qed

lemma sorted_frequencies: "sorted (map snd (frequencies xs k))"
  by (simp add: frequencies_eq)

lemma frequencies_ties:
  "sorted_wrt (by_count_then_first xs) (frequencies xs k)"
proof -
  let ?R = "\<lambda>p q. first_index xs (fst p) < first_index xs (fst q)"
  have "sorted_wrt (\<lambda>a b. first_index xs a < first_index xs b)
          (filter (\<lambda>x. k \<le> list_count xs x) (first_occurrences xs))"
    by (simp add: sorted_wrt_filter first_occurrences_ordered)
  then have "sorted_wrt ?R (frequency_comprehension xs k)"
    by (simp add: frequency_comprehension_eq sorted_wrt_map)
  then have "sorted_wrt (\<lambda>p q. snd p < snd q \<or> (snd p = snd q \<and> ?R p q))
               (sort_key snd (frequency_comprehension xs k))"
    by (rule sort_key_lex)
  then show ?thesis
    by (simp add: frequencies_eq by_count_then_first_def [abs_def])
qed


text \<open>
  C1. For every flat tag sequence and every threshold \<open>k\<close>, \<open>find_tag_frequencies\<close>
  stores a table with distinct keys that maps exactly the elements of the sequence
  occurring at least \<open>k\<close> times to their number of occurrences, holds no entry with a
  count below \<open>k\<close>, and is ordered by non-decreasing count, entries of equal count in
  the order of their first occurrence in the sequence. \<open>find_title_frequencies\<close> does
  the same over the flat title sequence.
\<close>

theorem find_frequencies_table:
  "(distinct (map fst (tag_frequencies (find_tag_frequencies st k)))
    \<and> (\<forall>x. map_of (tag_frequencies (find_tag_frequencies st k)) x =
           (if x \<in> set (tags st) \<and> k \<le> list_count (tags st) x
            then Some (list_count (tags st) x) else None))
    \<and> (\<forall>p \<in> set (tag_frequencies (find_tag_frequencies st k)). k \<le> snd p)
    \<and> sorted (map snd (tag_frequencies (find_tag_frequencies st k)))
    \<and> sorted_wrt (by_count_then_first (tags st)) (tag_frequencies (find_tag_frequencies st k)))
   \<and>
   (distinct (map fst (title_frequencies (find_title_frequencies st k)))
    \<and> (\<forall>x. map_of (title_frequencies (find_title_frequencies st k)) x =
           (if x \<in> set (titles st) \<and> k \<le> list_count (titles st) x
            then Some (list_count (titles st) x) else None))
    \<and> (\<forall>p \<in> set (title_frequencies (find_title_frequencies st k)). k \<le> snd p)
    \<and> sorted (map snd (title_frequencies (find_title_frequencies st k)))
    \<and> sorted_wrt (by_count_then_first (titles st))
          (title_frequencies (find_title_frequencies st k)))"
proof -
  have "\<forall>p \<in> set (frequencies (tags st) k). k \<le> snd p"
    and "\<forall>p \<in> set (frequencies (titles st) k). k \<le> snd p"
    by (auto simp: set_frequencies)
  then show ?thesis
    unfolding find_tag_frequencies_def find_title_frequencies_def
    by (simp add: distinct_frequencies map_of_frequencies sorted_frequencies frequencies_ties)
qed

theorem find_frequencies_table_witness:
  "map_of (tag_frequencies (find_tag_frequencies
      \<lparr>videos = [], titles = [''b'', ''a'', ''b''], tags = [''x'', ''y'', ''x''],
       title_frequencies = [], tag_frequencies = [], date = None\<rparr> 2)) ''x'' = Some 2
   \<and> map_of (tag_frequencies (find_tag_frequencies
      \<lparr>videos = [], titles = [''b'', ''a'', ''b''], tags = [''x'', ''y'', ''x''],
       title_frequencies = [], tag_frequencies = [], date = None\<rparr> 2)) ''y'' = None"
  using find_frequencies_table
    [of "\<lparr>videos = [], titles = [''b'', ''a'', ''b''], tags = [''x'', ''y'', ''x''],
          title_frequencies = [], tag_frequencies = [], date = None\<rparr>" 2,
     THEN conjunct1, THEN conjunct2, THEN conjunct1]
  by (simp add: list_count_def)

section \<open>Fetching the videos in batches\<close>


lemma fetch_loop_step:
  "cnt + 50 < length ids \<Longrightarrow>
     fetch_loop api py so ids cnt rs ws =
       fetch_loop api py so ids (cnt + 50) (rs @ [take 50 (drop cnt ids)])
         (ws @ map (video_of_item py so) (api (take 50 (drop cnt ids))))"
  by (subst fetch_loop.simps) (simp add: Let_def)

lemma fetch_loop_stop:
  "\<not> cnt + 50 < length ids \<Longrightarrow>
     fetch_loop api py so ids cnt rs ws =
       (rs @ [drop cnt ids], ws @ map (video_of_item py so) (api (drop cnt ids)))"
  by (subst fetch_loop.simps) (simp add: Let_def)

lemma fetch_loop_acc:
  "fetch_loop api py so ids cnt rs ws =
     (rs @ fst (fetch_loop api py so ids cnt [] []),
      ws @ snd (fetch_loop api py so ids cnt [] []))"
proof (induction "length ids - cnt" arbitrary: cnt rs ws rule: less_induct)
  case less
  show ?case
  proof (cases "cnt + 50 < length ids")
    case True
    then have lt: "length ids - (cnt + 50) < length ids - cnt" by simp
    let ?b = "take 50 (drop cnt ids)"
    let ?new = "map (video_of_item py so) (api ?b)"
    have "fetch_loop api py so ids (cnt + 50) (rs @ [?b]) (ws @ ?new) =
            ((rs @ [?b]) @ fst (fetch_loop api py so ids (cnt + 50) [] []),
             (ws @ ?new) @ snd (fetch_loop api py so ids (cnt + 50) [] []))"
      by (rule less [OF lt])
    moreover have "fetch_loop api py so ids (cnt + 50) ([] @ [?b]) ([] @ ?new) =
            (([] @ [?b]) @ fst (fetch_loop api py so ids (cnt + 50) [] []),
             ([] @ ?new) @ snd (fetch_loop api py so ids (cnt + 50) [] []))"
      by (rule less [OF lt])
    ultimately show ?thesis
      using fetch_loop_step [OF True, of api py so rs ws]
        fetch_loop_step [OF True, of api py so "[]" "[]"]
      by simp
  next
    case False
    then show ?thesis
      by (simp add: fetch_loop_stop)
  qed
qed

lemma fetch_requests_unfold:
  "fst (fetch_loop api py so ids cnt [] []) =
     (if cnt + 50 < length ids
      then take 50 (drop cnt ids) # fst (fetch_loop api py so ids (cnt + 50) [] [])
      else [drop cnt ids])"
proof (cases "cnt + 50 < length ids")
  case True
  show ?thesis
    using True by (subst fetch_loop_step [OF True], subst fetch_loop_acc) simp
next
  case False
  then show ?thesis by (simp add: fetch_loop_stop)
qed

lemma fetch_videos_unfold:
  "snd (fetch_loop api py so ids cnt [] []) =
     (if cnt + 50 < length ids
      then map (video_of_item py so) (api (take 50 (drop cnt ids)))
             @ snd (fetch_loop api py so ids (cnt + 50) [] [])
      else map (video_of_item py so) (api (drop cnt ids)))"
proof (cases "cnt + 50 < length ids")
  case True
  show ?thesis
    using True by (subst fetch_loop_step [OF True], subst fetch_loop_acc) simp
next
  case False
  then show ?thesis by (simp add: fetch_loop_stop)
qed

lemma fetch_videos_requests:
  "snd (fetch_loop api py so ids cnt [] []) =
     concat (map (\<lambda>b. map (video_of_item py so) (api b)) (fst (fetch_loop api py so ids cnt [] [])))"
proof (induction "length ids - cnt" arbitrary: cnt rule: less_induct)
  case less
  show ?case
  proof (cases "cnt + 50 < length ids")
    case True
    then have "length ids - (cnt + 50) < length ids - cnt" by simp
    from less [OF this] True show ?thesis
      by (subst fetch_videos_unfold, subst fetch_requests_unfold) simp
  next
    case False
    then show ?thesis
      by (subst fetch_videos_unfold, subst fetch_requests_unfold) simp
  qed
qed

lemma fetch_requests_concat:
  "concat (fst (fetch_loop api py so ids cnt [] [])) = drop cnt ids"
proof (induction "length ids - cnt" arbitrary: cnt rule: less_induct)
  case less
  show ?case
  proof (cases "cnt + 50 < length ids")
    case True
    then have "length ids - (cnt + 50) < length ids - cnt" by simp
    from less [OF this] have "concat (fst (fetch_loop api py so ids (cnt + 50) [] [])) =
        drop (cnt + 50) ids" .
    moreover have "take 50 (drop cnt ids) @ drop (cnt + 50) ids = drop cnt ids"
      by (metis add.commute append_take_drop_id drop_drop)
    ultimately show ?thesis using True
      by (subst fetch_requests_unfold) simp
  next
    case False
    then show ?thesis
      by (subst fetch_requests_unfold) simp
  qed
qed

lemma fetch_requests_sizes:
  "b \<in> set (fst (fetch_loop api py so ids cnt [] [])) \<Longrightarrow> length b \<le> 50"
proof (induction "length ids - cnt" arbitrary: cnt rule: less_induct)
  case less
  show ?case
  proof (cases "cnt + 50 < length ids")
    case True
    then have "length ids - (cnt + 50) < length ids - cnt" by simp
    from less(1) [OF this] less(2) True show ?thesis
      by (subst (asm) fetch_requests_unfold) auto
  next
    case False
    with less(2) show ?thesis
      by (subst (asm) fetch_requests_unfold) auto
  qed
qed

lemma fetch_requests_full:
  "b \<in> set (butlast (fst (fetch_loop api py so ids cnt [] []))) \<Longrightarrow> length b = 50"
proof (induction "length ids - cnt" arbitrary: cnt rule: less_induct)
  case less
  show ?case
  proof (cases "cnt + 50 < length ids")
    case True
    then have lt: "length ids - (cnt + 50) < length ids - cnt" by simp
    have ne: "fst (fetch_loop api py so ids (cnt + 50) [] []) \<noteq> []"
      by (subst fetch_requests_unfold) simp
    from less(2) True ne
    have "b = take 50 (drop cnt ids) \<or>
          b \<in> set (butlast (fst (fetch_loop api py so ids (cnt + 50) [] [])))"
      by (subst (asm) fetch_requests_unfold) auto
    with less(1) [OF lt] True show ?thesis by auto
  next
    case False
    with less(2) show ?thesis
      by (subst (asm) fetch_requests_unfold) auto
  qed
qed

lemma fetch_requests_120:
  assumes "length ids = 120"
  shows "map length (fst (fetch_loop api py so ids 0 [] [])) = [50, 50, 20]"
proof -
  have "fst (fetch_loop api py so ids 100 [] []) = [drop 100 ids]"
    using assms by (subst fetch_requests_unfold) simp
  then have "fst (fetch_loop api py so ids 50 [] []) = [take 50 (drop 50 ids), drop 100 ids]"
    using assms by (subst fetch_requests_unfold) simp
  then have "fst (fetch_loop api py so ids 0 [] []) =
      [take 50 ids, take 50 (drop 50 ids), drop 100 ids]"
    using assms by (subst fetch_requests_unfold) simp
  with assms show ?thesis by simp
qed

lemma get_videos_eq:
  "get_videos api py so now ids st =
     (fst (fetch_loop api py so ids 0 [] []),
      st\<lparr>videos := videos st @ concat (map (\<lambda>b. map (video_of_item py so) (api b))
                                        (fst (fetch_loop api py so ids 0 [] []))),
         date := Some now\<rparr>)"
  unfolding get_videos_def
  by (subst fetch_loop_acc) (simp add: fetch_videos_requests)

lemma video_id_of_item: "video_id (video_of_item py so it) = item_id it"
  by (simp add: video_of_item_def)

lemma concat_map_ids:
  "\<forall>b \<in> set reqs. map item_id (api b) = b \<Longrightarrow>
     map video_id (concat (map (\<lambda>b. map (video_of_item py so) (api b)) reqs)) = concat reqs"
  by (induction reqs) (simp_all add: comp_def video_id_of_item)

text \<open>
  C2. \<open>get_videos\<close> cuts the discovered identifiers into consecutive requests: put
  end to end they are the identifier sequence, each holds at most 50 identifiers and
  every one but the last holds exactly 50. It calls the API once per request and appends
  the videos built from the answers in that order, so when the API answers each request
  with one record per identifier in the order asked, the appended videos are in
  discovery order. 120 identifiers give three requests of 50, 50 and 20.
\<close>

theorem get_videos_batches:
  "concat (fst (get_videos api py so now ids st)) = ids
   \<and> (\<forall>b \<in> set (fst (get_videos api py so now ids st)). length b \<le> 50)
   \<and> (\<forall>b \<in> set (butlast (fst (get_videos api py so now ids st))). length b = 50)
   \<and> videos (snd (get_videos api py so now ids st)) =
       videos st @ concat (map (\<lambda>b. map (video_of_item py so) (api b))
                            (fst (get_videos api py so now ids st)))
   \<and> ((\<forall>b \<in> set (fst (get_videos api py so now ids st)). map item_id (api b) = b) \<longrightarrow>
        map video_id (videos (snd (get_videos api py so now ids st))) =
          map video_id (videos st) @ ids)
   \<and> (length ids = 120 \<longrightarrow> map length (fst (get_videos api py so now ids st)) = [50, 50, 20])"
proof -
  let ?reqs = "fst (fetch_loop api py so ids 0 [] [])"
  have c: "concat ?reqs = ids"
    using fetch_requests_concat [of api py so ids 0] by simp
  have "(\<forall>b \<in> set ?reqs. map item_id (api b) = b) \<longrightarrow>
     map video_id (concat (map (\<lambda>b. map (video_of_item py so) (api b)) ?reqs)) = ids"
    using concat_map_ids [of ?reqs api py so] c by simp
  then show ?thesis
    by (simp add: get_videos_eq c fetch_requests_sizes fetch_requests_full fetch_requests_120)
qed

theorem get_videos_batches_witness:
  "map length
     (fst (get_videos (map (\<lambda>i. \<lparr>item_id = i, item_title = ''t'', item_duration = ''PT1M'',
               item_made_for_kids = False, item_view_count = 7, item_like_count = 3,
               item_dislike_count = 1, item_tags = None, item_comment_count = None\<rparr>))
          latin1 remdups ''now'' (replicate 120 ''v'')
          \<lparr>videos = [], titles = [], tags = [], title_frequencies = [],
           tag_frequencies = [], date = None\<rparr>)) = [50, 50, 20]
   \<and> map video_id
     (videos (snd (get_videos (map (\<lambda>i. \<lparr>item_id = i, item_title = ''t'', item_duration = ''PT1M'',
               item_made_for_kids = False, item_view_count = 7, item_like_count = 3,
               item_dislike_count = 1, item_tags = None, item_comment_count = None\<rparr>))
          latin1 remdups ''now'' (replicate 120 ''v'')
          \<lparr>videos = [], titles = [], tags = [], title_frequencies = [],
           tag_frequencies = [], date = None\<rparr>))) = replicate 120 ''v''"
proof -
  let ?api = "map (\<lambda>i. \<lparr>item_id = i, item_title = ''t'', item_duration = ''PT1M'',
               item_made_for_kids = False, item_view_count = 7, item_like_count = 3,
               item_dislike_count = 1, item_tags = None, item_comment_count = None\<rparr>)"
  let ?st = "\<lparr>videos = [], titles = [], tags = [], title_frequencies = [],
           tag_frequencies = [], date = None\<rparr>"
  let ?ids = "replicate 120 ''v''"
  have a: "\<forall>b \<in> set (fst (get_videos ?api latin1 remdups ''now'' ?ids ?st)). map item_id (?api b) = b"
    by (simp add: comp_def)
  have l: "length ?ids = 120"
    by simp
  have v: "map video_id (videos ?st) = []"
    by simp
  from get_videos_batches [of ?api latin1 remdups "''now''" ?ids ?st] a l
  have "map length (fst (get_videos ?api latin1 remdups ''now'' ?ids ?st)) = [50, 50, 20]"
    and "map video_id (videos (snd (get_videos ?api latin1 remdups ''now'' ?ids ?st))) =
           map video_id (videos ?st) @ ?ids"
    by blast+
  with v show ?thesis
    by simp
qed

section \<open>Splitting a title\<close>


lemma split_from_words:
  "\<forall>c \<in> set w. \<not> isspace py c \<Longrightarrow> u \<in> set (split_from py w cs) \<Longrightarrow>
     u \<noteq> [] \<and> (\<forall>c \<in> set u. \<not> isspace py c)"
proof (induction cs arbitrary: w)
  case Nil
  then show ?case by (auto split: if_splits)
next
  case (Cons c cs)
  show ?case
  proof (cases "isspace py c")
    case True
    with Cons.prems have "u = w \<and> w \<noteq> [] \<or> u \<in> set (split_from py [] cs)"
      by (auto split: if_splits)
    then show ?thesis
      using Cons.prems(1) Cons.IH [of "[]"] by auto
  next
    case False
    with Cons.prems have "u \<in> set (split_from py (w @ [c]) cs)" by simp
    moreover from False Cons.prems(1) have "\<forall>d \<in> set (w @ [c]). \<not> isspace py d" by simp
    ultimately show ?thesis by (rule Cons.IH [rotated])
  qed
qed

text \<open>
  \<open>str_split\<close> is determined by four equations: nothing in the empty string, a leading
  whitespace character is dropped, a word followed by a whitespace character is cut
  there, and a word alone is itself.
\<close>

lemma split_from_run:
  "\<forall>c \<in> set u. \<not> isspace py c \<Longrightarrow> split_from py w (u @ rest) = split_from py (w @ u) rest"
  by (induction u arbitrary: w) simp_all

lemma str_split_Nil: "str_split py [] = []"
  by (simp add: str_split_def)

lemma str_split_space: "isspace py c \<Longrightarrow> str_split py (c # rest) = str_split py rest"
  by (simp add: str_split_def)

lemma str_split_word_space:
  "w \<noteq> [] \<Longrightarrow> \<forall>c \<in> set w. \<not> isspace py c \<Longrightarrow> isspace py c \<Longrightarrow>
     str_split py (w @ c # rest) = w # str_split py rest"
  by (simp add: str_split_def split_from_run)

lemma str_split_word:
  "w \<noteq> [] \<Longrightarrow> \<forall>c \<in> set w. \<not> isspace py c \<Longrightarrow> str_split py w = [w]"
  using split_from_run [of w py "[]" "[]"] by (simp add: str_split_def)

lemma str_split_words:
  "u \<in> set (str_split py s) \<Longrightarrow> u \<noteq> [] \<and> (\<forall>c \<in> set u. \<not> isspace py c)"
  unfolding str_split_def by (rule split_from_words [of "[]"]) simp_all

lemma title_words_total:
  "[] \<notin> set ws \<Longrightarrow> title_words py ws = Inr (filter (\<lambda>u. u \<noteq> []) (map (strip_word py) ws))"
  by (induction ws) auto

lemma title_words_str_split:
  "title_words py (str_split py s) = Inr (filter (\<lambda>u. u \<noteq> []) (map (strip_word py) (str_split py s)))"
  by (rule title_words_total) (use str_split_words in blast)

lemma in_set_tl: "x \<in> set (tl w) \<Longrightarrow> x \<in> set w"
  by (cases w) auto

lemma set_strip_word: "set (strip_word py w) \<subseteq> set w"
  by (auto simp: strip_word_def dest: in_set_butlastD in_set_tl)

lemma strip_word_layer:
  assumes "w \<noteq> []" and "strip_word py w \<noteq> []"
  shows "\<exists>p q. w = p @ strip_word py w @ q \<and> length p \<le> 1 \<and> length q \<le> 1
           \<and> set p \<subseteq> set (py_str py punctuation) \<and> set q \<subseteq> set (py_str py punctuation)
           \<and> (p = [] \<longrightarrow> hd w \<notin> set (py_str py punctuation))
           \<and> (q = [] \<longrightarrow> last w \<notin> set (py_str py punctuation))"
proof -
  consider (c1) "hd w \<in> set (py_str py punctuation)" "last w \<in> set (py_str py punctuation)"
    | (c2) "hd w \<in> set (py_str py punctuation)" "last w \<notin> set (py_str py punctuation)"
    | (c3) "hd w \<notin> set (py_str py punctuation)" "last w \<in> set (py_str py punctuation)"
    | (c4) "hd w \<notin> set (py_str py punctuation)" "last w \<notin> set (py_str py punctuation)"
    by blast
  then show ?thesis
  proof cases
    case c1
    then have s: "strip_word py w = butlast (tl w)" by (simp add: strip_word_def)
    with assms have t: "tl w \<noteq> []" by auto
    then have "last (tl w) = last w" using assms(1) by (simp add: last_tl)
    with t have "tl w = butlast (tl w) @ [last w]" by (metis append_butlast_last_id)
    with assms(1) have "w = [hd w] @ strip_word py w @ [last w]"
      using s by (metis append_Cons append_Nil list.collapse)
    with c1 show ?thesis
      by (intro exI [of _ "[hd w]"] exI [of _ "[last w]"]) simp
  next
    case c2
    then have s: "strip_word py w = tl w" by (simp add: strip_word_def)
    with assms(1) have "w = [hd w] @ strip_word py w @ []" by simp
    with c2 show ?thesis
      by (intro exI [of _ "[hd w]"] exI [of _ "[]"]) simp
  next
    case c3
    then have s: "strip_word py w = butlast w" by (simp add: strip_word_def)
    with assms(1) have "w = [] @ strip_word py w @ [last w]" by simp
    with c3 show ?thesis
      by (intro exI [of _ "[]"] exI [of _ "[last w]"]) simp
  next
    case c4
    then have s: "strip_word py w = w" by (simp add: strip_word_def)
    then have "w = [] @ strip_word py w @ []" by simp
    with c4 show ?thesis
      by (intro exI [of _ "[]"] exI [of _ "[]"]) simp
  qed
qed

lemma split_title_Str:
  "video_title v = Str s \<Longrightarrow>
     split_title py so combine v =
       Inr (v\<lparr>video_title :=
              Words (if combine
                     then s # so (filter (\<lambda>u. u \<noteq> []) (map (strip_word py) (str_split py s)))
                     else so (filter (\<lambda>u. u \<noteq> []) (map (strip_word py) (str_split py s))))\<rparr>)"
  by (simp add: split_title_def title_words_str_split)

lemma literal_text_space:
  "literal_text py \<Longrightarrow> isspace py (chr py c) = (c \<in> set whitespace)"
  by (simp add: literal_text_def)

lemma literal_text_eq:
  "literal_text py \<Longrightarrow> (chr py a = chr py b) = (a = b)"
  by (simp add: literal_text_def inj_eq)

lemma isspace_latin1: "isspace latin1 c = (c \<in> set whitespace)"
  by (simp add: latin1_def)

lemma chr_latin1: "chr latin1 c = c"
  by (simp add: latin1_def)

lemma literal_text_latin1: "literal_text latin1"
  by (simp add: literal_text_def isspace_latin1 chr_latin1 inj_def)

lemma py_str_latin1: "py_str latin1 s = s"
  by (induction s) (simp_all add: py_str_def chr_latin1)

lemma str_split_example:
  "literal_text py \<Longrightarrow>
     str_split py (py_str py ''Top 10 (AMAZING) Moments!'') =
       map (py_str py) [''Top'', ''10'', ''(AMAZING)'', ''Moments!'']"
  by (simp add: str_split_def py_str_def literal_text_space whitespace_def)

lemma strip_example:
  "literal_text py \<Longrightarrow>
     filter (\<lambda>u. u \<noteq> [])
       (map (strip_word py) (map (py_str py) [''Top'', ''10'', ''(AMAZING)'', ''Moments!''])) =
     map (py_str py) [''Top'', ''10'', ''AMAZING'', ''Moments'']"
  by (simp add: strip_word_def py_str_def literal_text_eq punctuation_def)

lemma set_order_singleton:
  assumes "valid_set_order so"
  shows "so [x] = [x]"
proof -
  from assms have d: "distinct (so [x])" and s: "set (so [x]) = {x}"
    by (simp_all add: valid_set_order_def)
  from d have "length (so [x]) = card (set (so [x]))"
    by (simp add: distinct_card)
  with s have "length (so [x]) = 1"
    by simp
  then obtain y where y: "so [x] = [y]"
    by (cases "so [x]") auto
  with s show ?thesis
    by simp
qed

text \<open>
  C3, as the code has it. For every title string \<open>s\<close> and either value of \<open>combine\<close>,
  \<open>split_title\<close> succeeds and leaves a list: the tokens \<open>t\<close> when \<open>combine\<close> is false,
  the original title followed by \<open>t\<close> when it is true. The tokens have no duplicates, are
  non-empty and free of whitespace, and are exactly the non-empty results of taking from
  a whitespace-separated word of the title one leading punctuation character if the word
  starts with one and one trailing punctuation character if it ends with one. This holds
  for every character type and whatever the interpreter takes for whitespace. Where the
  characters of a literal are what they are in Python (\<open>literal_text\<close>), the title
  \<open>Top 10 (AMAZING) Moments!\<close> gives the token set \<open>{Top, 10, AMAZING, Moments}\<close>.
\<close>

theorem split_title_tokens:
  assumes "valid_set_order so" and "video_title v = Str s"
  shows "\<exists>t. split_title py so combine v =
               Inr (v\<lparr>video_title := Words (if combine then s # t else t)\<rparr>)
     \<and> distinct t
     \<and> set t = {u. u \<noteq> [] \<and> u \<in> strip_word py ` set (str_split py s)}
     \<and> (\<forall>u \<in> set t. u \<noteq> [] \<and> (\<forall>c \<in> set u. \<not> isspace py c)
           \<and> (\<exists>w \<in> set (str_split py s). \<exists>p q.
                 w = p @ u @ q \<and> length p \<le> 1 \<and> length q \<le> 1
                 \<and> set p \<subseteq> set (py_str py punctuation) \<and> set q \<subseteq> set (py_str py punctuation)
                 \<and> (p = [] \<longrightarrow> hd w \<notin> set (py_str py punctuation))
                 \<and> (q = [] \<longrightarrow> last w \<notin> set (py_str py punctuation))))
     \<and> (literal_text py \<and> s = py_str py ''Top 10 (AMAZING) Moments!'' \<longrightarrow>
           set t = set (map (py_str py) [''Top'', ''10'', ''AMAZING'', ''Moments'']))"
proof -
  let ?toks = "filter (\<lambda>u. u \<noteq> []) (map (strip_word py) (str_split py s))"
  let ?t = "so ?toks"
  have res: "split_title py so combine v =
               Inr (v\<lparr>video_title := Words (if combine then s # ?t else ?t)\<rparr>)"
    using assms(2) by (rule split_title_Str)
  have d: "distinct ?t" and st: "set ?t = set ?toks"
    using assms(1) by (simp_all add: valid_set_order_def)
  have s: "set ?t = {u. u \<noteq> [] \<and> u \<in> strip_word py ` set (str_split py s)}"
    unfolding st by auto
  have each: "u \<noteq> [] \<and> (\<forall>c \<in> set u. \<not> isspace py c)
           \<and> (\<exists>w \<in> set (str_split py s). \<exists>p q.
                 w = p @ u @ q \<and> length p \<le> 1 \<and> length q \<le> 1
                 \<and> set p \<subseteq> set (py_str py punctuation) \<and> set q \<subseteq> set (py_str py punctuation)
                 \<and> (p = [] \<longrightarrow> hd w \<notin> set (py_str py punctuation))
                 \<and> (q = [] \<longrightarrow> last w \<notin> set (py_str py punctuation)))" if "u \<in> set ?t" for u
  proof -
    from that s obtain w where w: "w \<in> set (str_split py s)" and u: "u = strip_word py w" and ne: "u \<noteq> []"
      by auto
    from w have wne: "w \<noteq> []" and ws: "\<forall>c \<in> set w. \<not> isspace py c"
      using str_split_words by blast+
    from ws u have "\<forall>c \<in> set u. \<not> isspace py c"
      using set_strip_word [of py w] by blast
    moreover have "\<exists>p q. w = p @ u @ q \<and> length p \<le> 1 \<and> length q \<le> 1
                 \<and> set p \<subseteq> set (py_str py punctuation) \<and> set q \<subseteq> set (py_str py punctuation)
                 \<and> (p = [] \<longrightarrow> hd w \<notin> set (py_str py punctuation))
                 \<and> (q = [] \<longrightarrow> last w \<notin> set (py_str py punctuation))"
      using strip_word_layer [OF wne] ne unfolding u by simp
    ultimately show ?thesis using ne w by blast
  qed
  have ex: "literal_text py \<and> s = py_str py ''Top 10 (AMAZING) Moments!'' \<longrightarrow>
           set ?t = set (map (py_str py) [''Top'', ''10'', ''AMAZING'', ''Moments''])"
  proof
    assume a: "literal_text py \<and> s = py_str py ''Top 10 (AMAZING) Moments!''"
    then have "?toks = map (py_str py) [''Top'', ''10'', ''AMAZING'', ''Moments'']"
      by (simp only: str_split_example strip_example)
    then show "set ?t = set (map (py_str py) [''Top'', ''10'', ''AMAZING'', ''Moments''])"
      unfolding st by (rule arg_cong)
  qed
  show ?thesis
  proof (rule exI [of _ ?t], intro conjI)
    show "split_title py so combine v =
               Inr (v\<lparr>video_title := Words (if combine then s # ?t else ?t)\<rparr>)"
      by (rule res)
    show "distinct ?t"
      by (rule d)
    show "set ?t = {u. u \<noteq> [] \<and> u \<in> strip_word py ` set (str_split py s)}"
      by (rule s)
    show "\<forall>u \<in> set ?t. u \<noteq> [] \<and> (\<forall>c \<in> set u. \<not> isspace py c)
           \<and> (\<exists>w \<in> set (str_split py s). \<exists>p q.
                 w = p @ u @ q \<and> length p \<le> 1 \<and> length q \<le> 1
                 \<and> set p \<subseteq> set (py_str py punctuation) \<and> set q \<subseteq> set (py_str py punctuation)
                 \<and> (p = [] \<longrightarrow> hd w \<notin> set (py_str py punctuation))
                 \<and> (q = [] \<longrightarrow> last w \<notin> set (py_str py punctuation)))"
      by (rule ballI) (rule each)
    show "literal_text py \<and> s = py_str py ''Top 10 (AMAZING) Moments!'' \<longrightarrow>
           set ?t = set (map (py_str py) [''Top'', ''10'', ''AMAZING'', ''Moments''])"
      by (rule ex)
  qed
qed

theorem split_title_tokens_witness:
  "\<exists>t. split_title latin1 remdups False
          \<lparr>video_id = ''x'', video_title = Str ''Top 10 (AMAZING) Moments!'', video_tags = None,
           duration = [], view_count = 0, likes = 0, dislikes = 0, comment_count = 0,
           made_for_kids = None\<rparr> =
        Inr \<lparr>video_id = ''x'', video_title = Words t, video_tags = None,
           duration = [], view_count = 0, likes = 0, dislikes = 0, comment_count = 0,
           made_for_kids = None\<rparr>
      \<and> distinct t \<and> set t = {''Top'', ''10'', ''AMAZING'', ''Moments''}"
proof -
  let ?s = "''Top 10 (AMAZING) Moments!''"
  let ?v = "\<lparr>video_id = ''x'', video_title = Str ?s, video_tags = None,
           duration = [], view_count = 0, likes = 0, dislikes = 0, comment_count = 0,
           made_for_kids = None\<rparr>"
  have o: "valid_set_order remdups"
    by (simp add: valid_set_order_def)
  have v: "video_title ?v = Str ?s"
    by simp
  from split_title_tokens [OF o v, of latin1 False] show ?thesis
  proof (elim exE conjE)
    fix t
    assume r: "split_title latin1 remdups False ?v =
        Inr (?v\<lparr>video_title := Words (if False then ?s # t else t)\<rparr>)"
      and d: "distinct t"
      and e: "literal_text latin1 \<and> ?s = py_str latin1 ?s \<longrightarrow>
                set t = set (map (py_str latin1) [''Top'', ''10'', ''AMAZING'', ''Moments''])"
    from r have "split_title latin1 remdups False ?v =
        Inr \<lparr>video_id = ''x'', video_title = Words t, video_tags = None,
           duration = [], view_count = 0, likes = 0, dislikes = 0, comment_count = 0,
           made_for_kids = None\<rparr>"
      by simp
    moreover from e have "set t = {''Top'', ''10'', ''AMAZING'', ''Moments''}"
      by (simp add: literal_text_latin1 py_str_latin1)
    ultimately show ?thesis
      using d by (intro exI [of _ t] conjI)
  qed
qed

text \<open>
  C3 as stated fails. With \<open>combine\<close> true the one-word title \<open>a\<close> becomes \<open>[a, a]\<close>, the
  original title and its only token; and only one layer of punctuation is removed, so
  the title \<open>a!!\<close> leaves the token \<open>a!\<close>. Both token lists have one element, so every
  set order lists them alike.
\<close>

theorem split_title_counterexample:
  "split_title latin1 remdups True
      \<lparr>video_id = ''x'', video_title = Str ''a'', video_tags = None,
       duration = [], view_count = 0, likes = 0, dislikes = 0, comment_count = 0,
       made_for_kids = None\<rparr> =
    Inr \<lparr>video_id = ''x'', video_title = Words [''a'', ''a''], video_tags = None,
       duration = [], view_count = 0, likes = 0, dislikes = 0, comment_count = 0,
       made_for_kids = None\<rparr>
   \<and> \<not> distinct [''a'', ''a'']
   \<and> split_title latin1 remdups False
      \<lparr>video_id = ''x'', video_title = Str ''a!!'', video_tags = None,
       duration = [], view_count = 0, likes = 0, dislikes = 0, comment_count = 0,
       made_for_kids = None\<rparr> =
    Inr \<lparr>video_id = ''x'', video_title = Words [''a!''], video_tags = None,
       duration = [], view_count = 0, likes = 0, dislikes = 0, comment_count = 0,
       made_for_kids = None\<rparr>
   \<and> last ''a!'' \<in> set (py_str latin1 punctuation)"
  by (simp add: split_title_def str_split_def isspace_latin1 whitespace_def strip_word_def
      py_str_latin1 punctuation_def)

section \<open>Splitting tags\<close>


lemma split_tags_none: "video_tags v = None \<Longrightarrow> split_tags py so combine v = Inl TypeError"
  by (simp add: split_tags_def truthy_list_def)

lemma split_tags_empty: "video_tags v = Some [] \<Longrightarrow> split_tags py so combine v = Inl TypeError"
  by (simp add: split_tags_def truthy_list_def)

lemma split_tags_some:
  "video_tags v = Some ts \<Longrightarrow> ts \<noteq> [] \<Longrightarrow>
     split_tags py so combine v =
       Inr (v\<lparr>video_tags := Some (if combine then ts @ so (concat (map (str_split py) ts))
                                  else so (concat (map (str_split py) ts)))\<rparr>)"
  by (simp add: split_tags_def truthy_list_def Let_def)

lemma str_split_funny_cats: "str_split latin1 ''funny cats'' = [''funny'', ''cats'']"
  by (simp add: str_split_def isspace_latin1 whitespace_def)

lemma str_split_cats_dogs: "str_split latin1 ''cats dogs'' = [''cats'', ''dogs'']"
  by (simp add: str_split_def isspace_latin1 whitespace_def)

lemma str_split_funny: "str_split latin1 ''funny'' = [''funny'']"
  by (simp add: str_split_def isspace_latin1 whitespace_def)

text \<open>
  C5, as the code has it. \<open>split_tags\<close> raises TypeError, the source's error for a
  video without tags, when the tags are \<open>None\<close> and also when they are the empty
  list. For every video with a non-empty tag list it succeeds: it splits each tag on
  whitespace, lists the resulting words without duplicates, and either replaces the tags
  by that listing or, when \<open>combine\<close> is true, appends the listing to the tags.
\<close>

theorem split_tags_result:
  assumes "valid_set_order so"
  shows "(video_tags v = None \<longrightarrow> split_tags py so combine v = Inl TypeError)
     \<and> (video_tags v = Some [] \<longrightarrow> split_tags py so combine v = Inl TypeError)
     \<and> (\<forall>ts. video_tags v = Some ts \<and> ts \<noteq> [] \<longrightarrow>
          (\<exists>t. split_tags py so combine v =
                  Inr (v\<lparr>video_tags := Some (if combine then ts @ t else t)\<rparr>)
               \<and> distinct t
               \<and> set t = (\<Union>tag \<in> set ts. set (str_split py tag))))"
proof (intro conjI allI impI)
  assume "video_tags v = None"
  then show "split_tags py so combine v = Inl TypeError"
    by (rule split_tags_none)
next
  assume "video_tags v = Some []"
  then show "split_tags py so combine v = Inl TypeError"
    by (rule split_tags_empty)
next
  fix ts
  assume a: "video_tags v = Some ts \<and> ts \<noteq> []"
  let ?t = "so (concat (map (str_split py) ts))"
  from assms have "distinct ?t" and "set ?t = (\<Union>tag \<in> set ts. set (str_split py tag))"
    by (simp_all add: valid_set_order_def)
  moreover from a have "split_tags py so combine v =
       Inr (v\<lparr>video_tags := Some (if combine then ts @ ?t else ?t)\<rparr>)"
    by (simp add: split_tags_some)
  ultimately show "\<exists>t. split_tags py so combine v =
                  Inr (v\<lparr>video_tags := Some (if combine then ts @ t else t)\<rparr>)
               \<and> distinct t
               \<and> set t = (\<Union>tag \<in> set ts. set (str_split py tag))"
    by (intro exI [of _ ?t] conjI)
qed

theorem split_tags_result_witness:
  "\<exists>t. split_tags latin1 remdups False
          \<lparr>video_id = ''x'', video_title = Str ''t'',
           video_tags = Some [''funny cats'', ''funny'', ''cats dogs''],
           duration = [], view_count = 0, likes = 0, dislikes = 0, comment_count = 0,
           made_for_kids = None\<rparr> =
        Inr \<lparr>video_id = ''x'', video_title = Str ''t'', video_tags = Some t,
           duration = [], view_count = 0, likes = 0, dislikes = 0, comment_count = 0,
           made_for_kids = None\<rparr>
      \<and> distinct t \<and> set t = {''funny'', ''cats'', ''dogs''}"
proof -
  let ?ts = "[''funny cats'', ''funny'', ''cats dogs'']"
  let ?v = "\<lparr>video_id = ''x'', video_title = Str ''t'', video_tags = Some ?ts,
           duration = [], view_count = 0, likes = 0, dislikes = 0, comment_count = 0,
           made_for_kids = None\<rparr>"
  have o: "valid_set_order remdups"
    by (simp add: valid_set_order_def)
  have v: "video_tags ?v = Some ?ts \<and> ?ts \<noteq> []"
    by simp
  from split_tags_result [OF o, of ?v latin1 False, THEN conjunct2, THEN conjunct2, THEN spec,
      THEN mp, OF v]
  show ?thesis
  proof (elim exE conjE)
    fix t
    assume r: "split_tags latin1 remdups False ?v =
        Inr (?v\<lparr>video_tags := Some (if False then ?ts @ t else t)\<rparr>)"
      and d: "distinct t"
      and e: "set t = (\<Union>tag \<in> set ?ts. set (str_split latin1 tag))"
    from r have "split_tags latin1 remdups False ?v =
        Inr \<lparr>video_id = ''x'', video_title = Str ''t'', video_tags = Some t,
           duration = [], view_count = 0, likes = 0, dislikes = 0, comment_count = 0,
           made_for_kids = None\<rparr>"
      by simp
    moreover from e have "set t = {''funny'', ''cats'', ''dogs''}"
      by (simp add: str_split_funny_cats str_split_cats_dogs str_split_funny insert_commute)
    ultimately show ?thesis
      using d by (intro exI [of _ t] conjI)
  qed
qed

text \<open>
  C5 as stated fails: an empty tag list is not null, yet \<open>split_tags\<close> raises on it
  instead of splitting.
\<close>

theorem split_tags_counterexample:
  "split_tags latin1 remdups False
      \<lparr>video_id = ''x'', video_title = Str ''t'', video_tags = Some [],
       duration = [], view_count = 0, likes = 0, dislikes = 0, comment_count = 0,
       made_for_kids = None\<rparr> = Inl TypeError
   \<and> split_tags latin1 remdups True
      \<lparr>video_id = ''x'', video_title = Str ''t'', video_tags = Some [],
       duration = [], view_count = 0, likes = 0, dislikes = 0, comment_count = 0,
       made_for_kids = None\<rparr> = Inl TypeError"
  by (simp add: split_tags_def truthy_list_def)

section \<open>Fetched videos without tags\<close>

lemma video_of_tagless_item:
  "item_tags it = None \<Longrightarrow> video_tags (video_of_item py so it) = Some []"
  by (simp add: video_of_item_def)

lemma get_videos_new_videos:
  "drop (length (videos st)) (videos (snd (get_videos api py so now ids st))) =
     map (video_of_item py so) (concat (map api (fst (get_videos api py so now ids st))))"
  by (simp add: get_videos_eq map_concat comp_def)

text \<open>
  C10. The videos that \<open>get_videos\<close> appends are built record by record from the
  answers of the API; a record without a tags field gives a video whose tags are the
  empty list, not \<open>None\<close>; and \<open>split_tags\<close> raises the same TypeError on an empty tag
  list as on \<open>None\<close>, whatever \<open>combine\<close> is. So it fails on every video with an empty
  tag list, every fetched video without tags among them.
\<close>

theorem tagless_video_split_tags_fails:
  "drop (length (videos st)) (videos (snd (get_videos api py so now ids st))) =
     map (video_of_item py so) (concat (map api (fst (get_videos api py so now ids st))))
   \<and> (\<forall>it. item_tags it = None \<longrightarrow>
         video_tags (video_of_item py so it) = Some []
         \<and> split_tags py so combine (video_of_item py so it) = Inl TypeError)
   \<and> (\<forall>v. video_tags v = Some [] \<longrightarrow>
         split_tags py so combine v = Inl TypeError
         \<and> split_tags py so combine (v\<lparr>video_tags := None\<rparr>) = Inl TypeError)"
  by (simp add: get_videos_new_videos video_of_tagless_item split_tags_empty split_tags_none)

theorem tagless_video_split_tags_fails_witness:
  "video_tags (video_of_item latin1 remdups
      \<lparr>item_id = ''x'', item_title = ''t'', item_duration = ''PT1M'',
       item_made_for_kids = False, item_view_count = 7, item_like_count = 3,
       item_dislike_count = 1, item_tags = None, item_comment_count = None\<rparr>) = Some []
   \<and> split_tags latin1 remdups True (video_of_item latin1 remdups
      \<lparr>item_id = ''x'', item_title = ''t'', item_duration = ''PT1M'',
       item_made_for_kids = False, item_view_count = 7, item_like_count = 3,
       item_dislike_count = 1, item_tags = None, item_comment_count = None\<rparr>) = Inl TypeError"
proof -
  let ?it = "\<lparr>item_id = ''x'', item_title = ''t'', item_duration = ''PT1M'',
       item_made_for_kids = False, item_view_count = 7, item_like_count = 3,
       item_dislike_count = 1, item_tags = None, item_comment_count = None\<rparr>"
  have "item_tags ?it = None"
    by simp
  with tagless_video_split_tags_fails [of _ _ latin1 remdups _ _ True, THEN conjunct2, THEN conjunct1,
      THEN spec, of ?it]
  show ?thesis
    by (rule mp)
qed

section \<open>Combining the tags\<close>

lemma process_tags_ok:
  assumes "truthy_list (video_tags v)"
  shows "\<exists>v2 ts. process_tags py so english split combine stop_words v = Inr v2
           \<and> video_tags v2 = Some ts"
proof -
  from assms obtain ts where ts: "video_tags v = Some ts" "ts \<noteq> []"
    by (auto simp: truthy_list_def split: option.splits)
  then have "\<exists>v1 ts1. (if split then split_tags py so combine v else Inr v) = Inr v1
               \<and> video_tags v1 = Some ts1"
    by (simp add: split_tags_some)
  then obtain v1 ts1 where v1: "(if split then split_tags py so combine v else Inr v) = Inr v1"
    and t1: "video_tags v1 = Some ts1"
    by blast
  from t1 have "\<exists>v2 ts2. (if stop_words then stop_tags py so english v1 else Inr v1) = Inr v2
               \<and> video_tags v2 = Some ts2"
    by (simp add: stop_tags_def)
  with v1 show ?thesis
    by (simp add: process_tags_def)
qed

lemma combine_tags_loop_ok:
  "\<exists>vs'. combine_tags_loop py so english split combine stop_words vs acc =
            Inr (vs', acc @ concat (map contributed_tags vs'))
     \<and> list_all2 (\<lambda>v v'. (\<not> truthy_list (video_tags v) \<longrightarrow> v' = v)
                    \<and> (truthy_list (video_tags v) \<longrightarrow>
                         process_tags py so english split combine stop_words v = Inr v')) vs vs'"
proof (induction vs arbitrary: acc)
  case Nil
  show ?case by simp
next
  case (Cons v vs)
  show ?case
  proof (cases "truthy_list (video_tags v)")
    case True
    from process_tags_ok [OF True] obtain v2 ts
      where p: "process_tags py so english split combine stop_words v = Inr v2"
        and t: "video_tags v2 = Some ts"
      by blast
    from Cons.IH [of "acc @ ts"] obtain vs'
      where l: "combine_tags_loop py so english split combine stop_words vs (acc @ ts) =
                  Inr (vs', (acc @ ts) @ concat (map contributed_tags vs'))"
        and r: "list_all2 (\<lambda>v v'. (\<not> truthy_list (video_tags v) \<longrightarrow> v' = v)
                    \<and> (truthy_list (video_tags v) \<longrightarrow>
                         process_tags py so english split combine stop_words v = Inr v')) vs vs'"
      by blast
    from True p t l have "combine_tags_loop py so english split combine stop_words (v # vs) acc =
        Inr (v2 # vs', acc @ concat (map contributed_tags (v2 # vs')))"
      by (simp add: contributed_tags_def)
    with True p r show ?thesis
      by (intro exI [of _ "v2 # vs'"]) simp
  next
    case False
    then have c: "contributed_tags v = []"
      by (auto simp: contributed_tags_def truthy_list_def split: option.splits)
    from Cons.IH [of acc] obtain vs'
      where l: "combine_tags_loop py so english split combine stop_words vs acc =
                  Inr (vs', acc @ concat (map contributed_tags vs'))"
        and r: "list_all2 (\<lambda>v v'. (\<not> truthy_list (video_tags v) \<longrightarrow> v' = v)
                    \<and> (truthy_list (video_tags v) \<longrightarrow>
                         process_tags py so english split combine stop_words v = Inr v')) vs vs'"
      by blast
    from False l c have "combine_tags_loop py so english split combine stop_words (v # vs) acc =
        Inr (v # vs', acc @ concat (map contributed_tags (v # vs')))"
      by simp
    with False r show ?thesis
      by (intro exI [of _ "v # vs'"]) simp
  qed
qed

text \<open>
  C8. For every aggregator state and all options, \<open>combine_tags\<close> returns without
  raising. It keeps the number of videos; a video whose tags are \<open>None\<close> is left as it
  was and adds nothing to the flat tag sequence (one with an empty tag list is left as
  it was too); every other video is replaced by the result of the split and stop-word
  steps asked for; and the flat tag sequence grows by the tags that the videos then have, in
  the order of the videos.
\<close>

theorem combine_tags_skips_null:
  "\<exists>st'. combine_tags py so english split combine stop_words st = Inr st'
     \<and> st' = st\<lparr>videos := videos st', tags := tags st'\<rparr>
     \<and> length (videos st') = length (videos st)
     \<and> (\<forall>i < length (videos st).
          (video_tags (videos st ! i) = None \<longrightarrow>
             videos st' ! i = videos st ! i \<and> contributed_tags (videos st' ! i) = [])
          \<and> (video_tags (videos st ! i) = Some [] \<longrightarrow> videos st' ! i = videos st ! i)
          \<and> (truthy_list (video_tags (videos st ! i)) \<longrightarrow>
               process_tags py so english split combine stop_words (videos st ! i) =
                 Inr (videos st' ! i)))
     \<and> tags st' = tags st @ concat (map contributed_tags (videos st'))"
proof -
  from combine_tags_loop_ok [of py so english split combine stop_words "videos st" "tags st"]
  obtain vs' where l: "combine_tags_loop py so english split combine stop_words (videos st) (tags st) =
            Inr (vs', tags st @ concat (map contributed_tags vs'))"
    and r: "list_all2 (\<lambda>v v'. (\<not> truthy_list (video_tags v) \<longrightarrow> v' = v)
                    \<and> (truthy_list (video_tags v) \<longrightarrow>
                         process_tags py so english split combine stop_words v = Inr v'))
              (videos st) vs'"
    by blast
  let ?st' = "st\<lparr>videos := vs', tags := tags st @ concat (map contributed_tags vs')\<rparr>"
  from l have res: "combine_tags py so english split combine stop_words st = Inr ?st'"
    by (simp add: combine_tags_def)
  from r have len: "length vs' = length (videos st)"
    by (simp add: list_all2_lengthD)
  have each: "(video_tags (videos st ! i) = None \<longrightarrow>
             vs' ! i = videos st ! i \<and> contributed_tags (vs' ! i) = [])
          \<and> (video_tags (videos st ! i) = Some [] \<longrightarrow> vs' ! i = videos st ! i)
          \<and> (truthy_list (video_tags (videos st ! i)) \<longrightarrow>
               process_tags py so english split combine stop_words (videos st ! i) =
                 Inr (vs' ! i))" if "i < length (videos st)" for i
  proof -
    from r that have "(\<not> truthy_list (video_tags (videos st ! i)) \<longrightarrow> vs' ! i = videos st ! i)
        \<and> (truthy_list (video_tags (videos st ! i)) \<longrightarrow>
             process_tags py so english split combine stop_words (videos st ! i) = Inr (vs' ! i))"
      by (rule list_all2_nthD)
    then show ?thesis
      by (auto simp: truthy_list_def contributed_tags_def)
  qed
  show ?thesis
  proof (rule exI [of _ ?st'], intro conjI)
    show "combine_tags py so english split combine stop_words st = Inr ?st'"
      by (rule res)
    show "?st' = st\<lparr>videos := videos ?st', tags := tags ?st'\<rparr>"
      by simp
    show "length (videos ?st') = length (videos st)"
      using len by simp
    show "\<forall>i < length (videos st).
          (video_tags (videos st ! i) = None \<longrightarrow>
             videos ?st' ! i = videos st ! i \<and> contributed_tags (videos ?st' ! i) = [])
          \<and> (video_tags (videos st ! i) = Some [] \<longrightarrow> videos ?st' ! i = videos st ! i)
          \<and> (truthy_list (video_tags (videos st ! i)) \<longrightarrow>
               process_tags py so english split combine stop_words (videos st ! i) =
                 Inr (videos ?st' ! i))"
    proof (intro allI impI)
      fix i
      assume "i < length (videos st)"
      from each [OF this] show "(video_tags (videos st ! i) = None \<longrightarrow>
             videos ?st' ! i = videos st ! i \<and> contributed_tags (videos ?st' ! i) = [])
          \<and> (video_tags (videos st ! i) = Some [] \<longrightarrow> videos ?st' ! i = videos st ! i)
          \<and> (truthy_list (video_tags (videos st ! i)) \<longrightarrow>
               process_tags py so english split combine stop_words (videos st ! i) =
                 Inr (videos ?st' ! i))"
        by auto
    qed
    show "tags ?st' = tags st @ concat (map contributed_tags (videos ?st'))"
      by simp
  qed
qed

theorem combine_tags_skips_null_witness:
  "\<exists>st'. combine_tags latin1 remdups [''the''] True False True
            \<lparr>videos = [\<lparr>video_id = ''x'', video_title = Str ''t'', video_tags = None,
                         duration = [], view_count = 0, likes = 0, dislikes = 0,
                         comment_count = 0, made_for_kids = None\<rparr>,
                       \<lparr>video_id = ''y'', video_title = Str ''u'', video_tags = Some [''a b''],
                         duration = [], view_count = 0, likes = 0, dislikes = 0,
                         comment_count = 0, made_for_kids = None\<rparr>],
              titles = [], tags = [], title_frequencies = [], tag_frequencies = [],
              date = None\<rparr> = Inr st'
     \<and> videos st' ! 0 = \<lparr>video_id = ''x'', video_title = Str ''t'', video_tags = None,
                         duration = [], view_count = 0, likes = 0, dislikes = 0,
                         comment_count = 0, made_for_kids = None\<rparr>"
proof -
  let ?v = "\<lparr>video_id = ''x'', video_title = Str ''t'', video_tags = None,
                         duration = [], view_count = 0, likes = 0, dislikes = 0,
                         comment_count = 0, made_for_kids = None\<rparr>"
  let ?w = "\<lparr>video_id = ''y'', video_title = Str ''u'', video_tags = Some [''a b''],
                         duration = [], view_count = 0, likes = 0, dislikes = 0,
                         comment_count = 0, made_for_kids = None\<rparr>"
  let ?st = "\<lparr>videos = [?v, ?w], titles = [], tags = [], title_frequencies = [],
              tag_frequencies = [], date = None\<rparr>"
  have i: "0 < length (videos ?st)"
    by simp
  have n: "video_tags (videos ?st ! 0) = None"
    by simp
  from combine_tags_skips_null [of latin1 remdups "[''the'']" True False True ?st] show ?thesis
  proof (elim exE conjE)
    fix st'
    assume r: "combine_tags latin1 remdups [''the''] True False True ?st = Inr st'"
      and a: "\<forall>i < length (videos ?st).
          (video_tags (videos ?st ! i) = None \<longrightarrow>
             videos st' ! i = videos ?st ! i \<and> contributed_tags (videos st' ! i) = [])
          \<and> (video_tags (videos ?st ! i) = Some [] \<longrightarrow> videos st' ! i = videos ?st ! i)
          \<and> (truthy_list (video_tags (videos ?st ! i)) \<longrightarrow>
               process_tags latin1 remdups [''the''] True False True (videos ?st ! i) =
                 Inr (videos st' ! i))"
    from a i n have "videos st' ! 0 = videos ?st ! 0"
      by blast
    then have "videos st' ! 0 = ?v"
      by simp
    with r show ?thesis
      by (intro exI [of _ st'] conjI)
  qed
qed

section \<open>The like ratio\<close>

text \<open>
  C6. For every video with zero dislikes \<open>like_ratio\<close> raises ZeroDivisionError: nothing
  guards the division. For every video with nonzero dislikes it is the quotient of likes
  by dislikes, as the float division gives it, rounded to two decimals.
\<close>

theorem like_ratio_zero_guard:
  "(dislikes v = 0 \<longrightarrow> like_ratio fdiv rnd v = Inl ZeroDivisionError)
   \<and> (dislikes v \<noteq> 0 \<longrightarrow>
        like_ratio fdiv rnd v =
          (case fdiv (likes v) (dislikes v) of Inl e \<Rightarrow> Inl e | Inr q \<Rightarrow> Inr (rnd q 2)))"
  by (simp add: like_ratio_def truediv_def)

theorem like_ratio_zero_guard_witness:
  "like_ratio (\<lambda>a b. Inr (real_of_int a / real_of_int b))
      (\<lambda>q n. real_of_int (round (q * 10 ^ nat n)) / 10 ^ nat n)
      \<lparr>video_id = ''x'', video_title = Str ''t'', video_tags = None, duration = [],
       view_count = 9, likes = 10, dislikes = 0, comment_count = 0, made_for_kids = None\<rparr>
     = Inl ZeroDivisionError
   \<and> like_ratio (\<lambda>a b. Inr (real_of_int a / real_of_int b))
      (\<lambda>q n. real_of_int (round (q * 10 ^ nat n)) / 10 ^ nat n)
      \<lparr>video_id = ''x'', video_title = Str ''t'', video_tags = None, duration = [],
       view_count = 9, likes = 10, dislikes = 4, comment_count = 0, made_for_kids = None\<rparr>
     = Inr (5 / 2)"
  using like_ratio_zero_guard [of
      "\<lparr>video_id = ''x'', video_title = Str ''t'', video_tags = None, duration = [],
       view_count = 9, likes = 10, dislikes = 0, comment_count = 0, made_for_kids = None\<rparr>"
      "\<lambda>a b. Inr (real_of_int a / real_of_int b)"
      "\<lambda>q n. real_of_int (round (q * 10 ^ nat n)) / 10 ^ nat n"]
    like_ratio_zero_guard [of
      "\<lparr>video_id = ''x'', video_title = Str ''t'', video_tags = None, duration = [],
       view_count = 9, likes = 10, dislikes = 4, comment_count = 0, made_for_kids = None\<rparr>"
      "\<lambda>a b. Inr (real_of_int a / real_of_int b)"
      "\<lambda>q n. real_of_int (round (q * 10 ^ nat n)) / 10 ^ nat n"]
  by simp

section \<open>Counting\<close>

lemma count_in_name:
  "name \<noteq> [] \<Longrightarrow> count_in xs (Some name) index = Inr (Some (list_count xs name))"
  by (simp add: count_in_def truthy_str_def)

lemma count_in_index:
  "count_in xs None (Some i) =
     (if i = 0 then Inr None
      else if - int (length xs) \<le> i \<and> i < int (length xs)
        then Inr (Some (list_count xs (xs ! nat (if i < 0 then int (length xs) + i else i))))
      else Inl IndexError)"
  by (auto simp: count_in_def truthy_str_def truthy_int_def getitem_def)

lemma count_in_no_selector: "count_in xs None None = Inr None"
  by (simp add: count_in_def truthy_str_def truthy_int_def)

lemma count_no_selector:
  "count st title tag None None = Inr None"
  "count st False False name index = Inr None"
  by (simp_all add: count_def count_in_no_selector)

lemma count_name:
  "name \<noteq> [] \<Longrightarrow> title \<or> tag \<Longrightarrow>
     count st title tag (Some name) index =
       Inr (Some (list_count (if title then titles st else tags st) name))"
  by (auto simp: count_def count_in_name)

lemma count_round_trip_nonempty:
  assumes "x \<noteq> []"
  shows "map_of (tag_frequencies (find_tag_frequencies st k)) x = Some n \<Longrightarrow>
           count (find_tag_frequencies st k) False True (Some x) None = Inr (Some n)"
    and "map_of (title_frequencies (find_title_frequencies st k)) x = Some n \<Longrightarrow>
           count (find_title_frequencies st k) True False (Some x) None = Inr (Some n)"
  using assms
  by (auto simp: find_tag_frequencies_def find_title_frequencies_def map_of_frequencies
      count_name split: if_splits)

text \<open>
  C7 on the code. With the title selector set, no name and index 0, \<open>count\<close> returns
  \<open>None\<close> although the element at position 0 occurs once; with the tag selector set and
  the empty string as name it returns \<open>None\<close> although the empty string occurs once.
  The tests \<open>if name\<close> and \<open>elif index\<close> take an empty name and a zero index for absent
  ones.
\<close>

theorem count_falsy_selector:
  "count \<lparr>videos = [], titles = [''a'', ''b''], tags = [''''], title_frequencies = [],
          tag_frequencies = [], date = None\<rparr> True False None (Some 0) = Inr None
   \<and> list_count [''a'', ''b''] ([''a'', ''b''] ! 0) = 1
   \<and> count \<lparr>videos = [], titles = [''a'', ''b''], tags = [''''], title_frequencies = [],
          tag_frequencies = [], date = None\<rparr> False True (Some '''') None = Inr None
   \<and> list_count [''''] '''' = 1"
  by (simp add: count_def count_in_def truthy_str_def truthy_int_def list_count_def)

text \<open>
  C9, as the code has it. With a selector set and no name, index 0 gives \<open>None\<close>, as an
  absent index does. Every other index is used: from \<open>-n\<close> up to \<open>n - 1\<close>, for a sequence
  of length \<open>n\<close>, it selects an element, a negative one counting from the end, and the
  result is the number of occurrences of that element; outside this range the indexing
  raises IndexError.
\<close>

theorem count_index_selection:
  assumes "title \<or> tag" and "xs = (if title then titles st else tags st)"
  shows "count st title tag None (Some i) =
     (if i = 0 then Inr None
      else if - int (length xs) \<le> i \<and> i < int (length xs)
        then Inr (Some (list_count xs (xs ! nat (if i < 0 then int (length xs) + i else i))))
      else Inl IndexError)"
  using assms by (auto simp: count_def count_in_index)

theorem count_index_selection_witness:
  "count \<lparr>videos = [], titles = [''a'', ''b'', ''b''], tags = [], title_frequencies = [],
          tag_frequencies = [], date = None\<rparr> True False None (Some 0) = Inr None
   \<and> count \<lparr>videos = [], titles = [''a'', ''b'', ''b''], tags = [], title_frequencies = [],
          tag_frequencies = [], date = None\<rparr> True False None (Some 2) = Inr (Some 2)
   \<and> count \<lparr>videos = [], titles = [''a'', ''b'', ''b''], tags = [], title_frequencies = [],
          tag_frequencies = [], date = None\<rparr> True False None (Some 3) = Inl IndexError"
  using count_index_selection [of True False "[''a'', ''b'', ''b'']"
      "\<lparr>videos = [], titles = [''a'', ''b'', ''b''], tags = [], title_frequencies = [],
          tag_frequencies = [], date = None\<rparr>" 0]
    count_index_selection [of True False "[''a'', ''b'', ''b'']"
      "\<lparr>videos = [], titles = [''a'', ''b'', ''b''], tags = [], title_frequencies = [],
          tag_frequencies = [], date = None\<rparr>" 2]
    count_index_selection [of True False "[''a'', ''b'', ''b'']"
      "\<lparr>videos = [], titles = [''a'', ''b'', ''b''], tags = [], title_frequencies = [],
          tag_frequencies = [], date = None\<rparr>" 3]
  by (simp add: list_count_def)

text \<open>
  C9 as stated fails: index \<open>-1\<close> is not strictly positive and selects the last element.
\<close>

theorem count_negative_index_counterexample:
  "count \<lparr>videos = [], titles = [], tags = [''a'', ''b'', ''b''], title_frequencies = [],
          tag_frequencies = [], date = None\<rparr> False True None (Some (- 1)) = Inr (Some 2)"
  by (simp add: count_def count_in_def truthy_str_def truthy_int_def getitem_def list_count_def)

text \<open>
  C4 on the code. A video built with the default title, the empty string, gets the title
  list \<open>['']\<close> from \<open>combine_titles\<close> with \<open>split\<close> and \<open>combine\<close> set; the flat title
  sequence is then \<open>['']\<close> and the frequency table maps the empty string to 1, but
  \<open>count\<close> with the title selector and the empty string as name returns \<open>None\<close>.
  For a non-empty key the round trip holds (\<open>count_round_trip_nonempty\<close>).
\<close>

theorem round_trip_empty_string:
  "combine_titles latin1 remdups [] True True False
      \<lparr>videos = [\<lparr>video_id = ''x'', video_title = Str '''', video_tags = None, duration = [],
                  view_count = 0, likes = 0, dislikes = 0, comment_count = 0,
                  made_for_kids = None\<rparr>],
       titles = [], tags = [], title_frequencies = [], tag_frequencies = [], date = None\<rparr>
     = Inr \<lparr>videos = [\<lparr>video_id = ''x'', video_title = Words [''''], video_tags = None,
                  duration = [], view_count = 0, likes = 0, dislikes = 0, comment_count = 0,
                  made_for_kids = None\<rparr>],
       titles = [''''], tags = [], title_frequencies = [], tag_frequencies = [], date = None\<rparr>
   \<and> find_title_frequencies
      \<lparr>videos = [\<lparr>video_id = ''x'', video_title = Words [''''], video_tags = None,
                  duration = [], view_count = 0, likes = 0, dislikes = 0, comment_count = 0,
                  made_for_kids = None\<rparr>],
       titles = [''''], tags = [], title_frequencies = [], tag_frequencies = [], date = None\<rparr> 1
     = \<lparr>videos = [\<lparr>video_id = ''x'', video_title = Words [''''], video_tags = None,
                  duration = [], view_count = 0, likes = 0, dislikes = 0, comment_count = 0,
                  made_for_kids = None\<rparr>],
       titles = [''''], tags = [], title_frequencies = [('''', 1)], tag_frequencies = [],
       date = None\<rparr>
   \<and> count
      \<lparr>videos = [\<lparr>video_id = ''x'', video_title = Words [''''], video_tags = None,
                  duration = [], view_count = 0, likes = 0, dislikes = 0, comment_count = 0,
                  made_for_kids = None\<rparr>],
       titles = [''''], tags = [], title_frequencies = [('''', 1)], tag_frequencies = [],
       date = None\<rparr> True False (Some '''') None = Inr None"
  by (simp add: combine_titles_def split_title_def str_split_def title_elements_def
      find_title_frequencies_def frequencies_def frequency_comprehension_def dict_of_def
      list_count_def count_def count_in_def truthy_str_def truthy_int_def)

end
